theory Spec2Isabelle
  imports Main "HOL-Library.Sublist"
begin

section \<open>Shared vocabulary\<close>

text \<open>
  The repository is an Angular demonstration: one running service
  (\<open>HttpDemoService\<close>) and a guide (\<open>docs/HttpClient.md\<close>) whose TypeScript
  snippets show interceptors, caches, queues, retry operators and a refresh-token
  service.  Each snippet is embedded below under the names it has in the source.

  Errors travelling through an observable are values of \<open>HttpError\<close>:
  an \<open>HttpErrorResponse\<close> carries its status and, where present, the numeric value
  of its \<open>Retry-After\<close> header (seconds); \<open>Error\<close> is a plain JavaScript
  \<open>Error\<close> with its message; \<open>TimeoutError\<close> is what the \<open>timeout\<close>
  operator raises.
\<close>

datatype HttpError =
    HttpErrorResponse int "int option"
  | Error string
  | TimeoutError

record HttpRequest =
  req_method :: string
  url :: string
  params :: "(string \<times> string) list"
  headers :: "(string \<times> string) list"

section \<open>HttpDemoService\<close>

text \<open>
  \<open>Number.prototype.toString\<close> on an integer value: its decimal digits, with a
  leading minus sign below zero.  Identifiers and offsets are integers here; the
  only other falsy number, NaN, is outside the model.
\<close>

function toString_nat :: "nat \<Rightarrow> string" where
  "toString_nat n =
     (if n < 10 then [''0123456789'' ! n]
      else toString_nat (n div 10) @ [''0123456789'' ! (n mod 10)])"
  by pat_completeness auto
termination
  by (relation "measure id") auto

declare toString_nat.simps [simp del]

definition toString :: "int \<Rightarrow> string" where
  "toString i = (if i < 0 then CHR ''-'' # toString_nat (nat (- i)) else toString_nat (nat i))"

definition apiUrl :: string where
  "apiUrl = ''https://jsonplaceholder.typicode.com''"

text \<open>\<open>this.http.get(url, { params })\<close>: the request put on the wire at subscription.\<close>

definition http_get :: "string \<Rightarrow> (string \<times> string) list \<Rightarrow> HttpRequest" where
  "http_get u ps = \<lparr>req_method = ''GET'', url = u, params = ps, headers = []\<rparr>"

text \<open>
  \<open>getPostsWithParams(userId?, _start?, _limit?)\<close>.  An optional number is
  \<open>None\<close> when \<open>undefined\<close>.  The first guard is JavaScript truthiness
  (\<open>if (userId)\<close>), the other two compare with \<open>undefined\<close>.
\<close>

definition getPostsWithParams :: "int option \<Rightarrow> int option \<Rightarrow> int option \<Rightarrow> HttpRequest" where
  "getPostsWithParams userId start limit =
     (let params0 = [];
          params1 = (case userId of
                       None \<Rightarrow> params0
                     | Some u \<Rightarrow> if u \<noteq> 0 then params0 @ [(''userId'', toString u)] else params0);
          params2 = (case start of
                       None \<Rightarrow> params1
                     | Some s \<Rightarrow> params1 @ [(''_start'', toString s)]);
          params3 = (case limit of
                       None \<Rightarrow> params2
                     | Some l \<Rightarrow> params2 @ [(''_limit'', toString l)])
      in http_get (apiUrl @ ''/posts'') params3)"

text \<open>
  \<open>getPostsWithRetry()\<close>: \<open>http.get(...).pipe(retry(3), timeout(5000), catchError(...))\<close>.
  The environment is the list of outcomes of the successive GET subscriptions:
  \<open>Some (Inr v)\<close> a response, \<open>Some (Inl e)\<close> an error, \<open>None\<close> no reply
  before the 5000 ms timer of \<open>timeout\<close> fires (so is an exhausted list: the timer
  ends every wait).  \<open>retry(count)\<close> resubscribes on any error while resubscriptions
  are left; \<open>timeout\<close> sits behind it, so its error is not retried.  The second
  component counts the GET requests issued.
\<close>

fun retry_timeout :: "nat \<Rightarrow> (HttpError + 'a) option list \<Rightarrow> (HttpError + 'a) \<times> nat" where
  "retry_timeout count [] = (Inl TimeoutError, 1)"
| "retry_timeout count (None # rest) = (Inl TimeoutError, 1)"
| "retry_timeout count (Some (Inr v) # rest) = (Inr v, 1)"
| "retry_timeout 0 (Some (Inl e) # rest) = (Inl e, 1)"
| "retry_timeout (Suc count) (Some (Inl e) # rest) =
     (case retry_timeout count rest of (r, k) \<Rightarrow> (r, Suc k))"

definition getPostsWithRetry :: "(HttpError + 'a) option list \<Rightarrow> (HttpError + 'a) \<times> nat" where
  "getPostsWithRetry outcomes =
     (case retry_timeout 3 outcomes of
        (Inl error, k) \<Rightarrow> (Inl (Error ''Failed to fetch posts after 3 retries''), k)
      | (Inr posts, k) \<Rightarrow> (Inr posts, k))"

section \<open>Retry operators of the guide\<close>

text \<open>
  \<open>retryWithBackoff(maxRetries = 3, backoffMs = 1000)\<close>.  \<open>backoff_notifier\<close> is the
  callback given to \<open>concatMap\<close>: for the error with (0-based) \<open>index\<close> it either
  rethrows or returns \<open>timer(retryAttempt * backoffMs)\<close>.  \<open>retryWithBackoff\<close> runs
  \<open>retryWhen\<close> over the outcomes of the successive subscriptions of the source and
  returns the final outcome (\<open>None\<close>: still waiting for a reply) with the timers
  waited for, in order.
\<close>

datatype notifier = Throw HttpError | Timer int

definition backoff_notifier :: "int \<Rightarrow> int \<Rightarrow> HttpError \<Rightarrow> nat \<Rightarrow> notifier" where
  "backoff_notifier maxRetries backoffMs error index =
     (let retryAttempt = int index + 1 in
      if retryAttempt > maxRetries then Throw error
      else Timer (retryAttempt * backoffMs))"

fun retryWithBackoff ::
  "int \<Rightarrow> int \<Rightarrow> nat \<Rightarrow> (HttpError + 'a) list \<Rightarrow> (HttpError + 'a) option \<times> int list" where
  "retryWithBackoff maxRetries backoffMs index [] = (None, [])"
| "retryWithBackoff maxRetries backoffMs index (Inr v # rest) = (Some (Inr v), [])"
| "retryWithBackoff maxRetries backoffMs index (Inl e # rest) =
     (case backoff_notifier maxRetries backoffMs e index of
        Throw e' \<Rightarrow> (Some (Inl e'), [])
      | Timer d \<Rightarrow>
          (case retryWithBackoff maxRetries backoffMs (Suc index) rest of
             (r, ds) \<Rightarrow> (r, d # ds)))"

text \<open>
  \<open>BatchErrorHandler\<close>.  \<open>retry_config count delay\<close> is the operator
  \<open>retry({count, delay})\<close>: on an error it increments \<open>soFar\<close>, and while
  \<open>soFar \<le> count\<close> waits for \<open>delay(error, soFar)\<close> and resubscribes.
  \<open>retryBatch\<close> uses \<open>count: 3\<close> and \<open>timer(Math.pow(2, retryCount) * 1000)\<close>.
  \<open>handleBatchError\<close> waits \<open>Retry-After * 1000\<close> on status 429 (a missing
  header is \<open>null\<close>, and \<open>null * 1000\<close> is 0) and rethrows everything else.
\<close>

fun retry_config ::
  "nat \<Rightarrow> (HttpError \<Rightarrow> nat \<Rightarrow> int) \<Rightarrow> nat \<Rightarrow> (HttpError + 'a) list
     \<Rightarrow> (HttpError + 'a) option \<times> int list" where
  "retry_config count delay soFar [] = (None, [])"
| "retry_config count delay soFar (Inr v # rest) = (Some (Inr v), [])"
| "retry_config count delay soFar (Inl e # rest) =
     (if soFar < count
      then (case retry_config count delay (Suc soFar) rest of
              (r, ds) \<Rightarrow> (r, delay e (Suc soFar) # ds))
      else (Some (Inl e), []))"

definition retryBatch :: "(HttpError + 'a) list \<Rightarrow> (HttpError + 'a) option \<times> int list" where
  "retryBatch outcomes = retry_config 3 (\<lambda>error retryCount. 2 ^ retryCount * 1000) 0 outcomes"

definition handleBatchError ::
  "HttpError \<Rightarrow> (HttpError + 'a) list \<Rightarrow> (HttpError + 'a) option \<times> int list" where
  "handleBatchError error outcomes =
     (case error of
        HttpErrorResponse status retryAfter \<Rightarrow>
          if status = 429
          then (case retryBatch outcomes of
                  (r, ds) \<Rightarrow> (r, (case retryAfter of None \<Rightarrow> 0 | Some h \<Rightarrow> h) * 1000 # ds))
          else (Some (Inl error), [])
      | _ \<Rightarrow> (Some (Inl error), []))"

section \<open>Caches\<close>












text \<open>
  \<open>CacheInterceptor\<close>.  \<open>response_cache\<close> is its \<open>Map<string, HttpResponse>\<close>,
  keyed by \<open>req.url\<close>; \<open>handled\<close> logs the requests given to \<open>next.handle\<close>.
  An exchange ends in an error or in one \<open>HttpResponse\<close> event, the only event the
  \<open>tap\<close> stores; progress events are not modelled.
\<close>

record HttpResponse =
  status :: int
  body :: string

record CacheInterceptor =
  response_cache :: "string \<rightharpoonup> HttpResponse"
  handled :: "HttpRequest list"

definition next_handle ::
  "HttpRequest \<Rightarrow> (HttpError + HttpResponse) \<Rightarrow> CacheInterceptor
     \<Rightarrow> (HttpError + HttpResponse) \<times> CacheInterceptor" where
  "next_handle req reply s = (reply, s\<lparr>handled := handled s @ [req]\<rparr>)"

definition CacheInterceptor_intercept ::
  "HttpRequest \<Rightarrow> (HttpError + HttpResponse) \<Rightarrow> CacheInterceptor
     \<Rightarrow> (HttpError + HttpResponse) \<times> CacheInterceptor" where
  "CacheInterceptor_intercept req reply s =
     (if req_method req \<noteq> ''GET'' then next_handle req reply s
      else (case response_cache s (url req) of
              Some cachedResponse \<Rightarrow> (Inr cachedResponse, s)
            | None \<Rightarrow>
                (case next_handle req reply s of
                   (Inl error, s') \<Rightarrow> (Inl error, s')
                 | (Inr event, s') \<Rightarrow>
                     (Inr event, s'\<lparr>response_cache := (response_cache s')(url req \<mapsto> event)\<rparr>))))"

section \<open>RequestQueueService\<close>

text \<open>
  \<open>processQueue\<close> subscribes once to
  \<open>queue$.pipe(mergeMap(request => request(), this.concurrentRequests))\<close>.  The
  state is that of the \<open>mergeMap\<close> operator: \<open>active\<close> holds the requests whose
  observable is subscribed and has not ended (the operator's counter is its length),
  \<open>buffer\<close> the ones held back, in arrival order; \<open>stopped\<close> says that the
  subscription has ended with an error, after which \<open>queue$\<close> has no observer.
  Two logs record the order of events: \<open>queued\<close> the requests in the order of
  \<open>queue$.next\<close> (the subscriptions of \<open>addToQueue\<close>), \<open>started\<close> in the order
  in which \<open>request()\<close> was called.

  JavaScript runs each callback to its end, so the service moves by whole events:
  a subscription of \<open>addToQueue(r)\<close>, the completion of a started request, or its
  failure.  \<open>outerNext\<close>, \<open>doInnerSub\<close> and the loop over the buffer
  (\<open>drain_buffer\<close>) are the operator's.  An error of a started request reaches the
  subscriber of \<open>processQueue\<close>, which ends the subscription and with it every
  started request.  The limit is a parameter; the service sets it to
  \<open>concurrentRequests\<close>.
\<close>

record 'r RequestQueueService =
  active :: "'r list"
  buffer :: "'r list"
  stopped :: bool
  started :: "'r list"
  queued :: "'r list"

datatype 'r queue_event = AddToQueue 'r | Completes 'r | Errors 'r

definition concurrentRequests :: nat where
  "concurrentRequests = 3"

definition new_queue :: "'r RequestQueueService" where
  "new_queue = \<lparr>active = [], buffer = [], stopped = False, started = [], queued = []\<rparr>"

definition doInnerSub :: "'r \<Rightarrow> 'r RequestQueueService \<Rightarrow> 'r RequestQueueService" where
  "doInnerSub v s = s\<lparr>active := active s @ [v], started := started s @ [v]\<rparr>"

definition outerNext :: "nat \<Rightarrow> 'r \<Rightarrow> 'r RequestQueueService \<Rightarrow> 'r RequestQueueService" where
  "outerNext concurrent v s =
     (if length (active s) < concurrent then doInnerSub v s
      else s\<lparr>buffer := buffer s @ [v]\<rparr>)"

fun drain_buffer :: "nat \<Rightarrow> 'r list \<Rightarrow> 'r RequestQueueService \<Rightarrow> 'r RequestQueueService" where
  "drain_buffer concurrent [] s = s\<lparr>buffer := []\<rparr>"
| "drain_buffer concurrent (b # bs) s =
     (if length (active s) < concurrent then drain_buffer concurrent bs (doInnerSub b s)
      else s\<lparr>buffer := b # bs\<rparr>)"

fun queue_step :: "nat \<Rightarrow> 'r RequestQueueService \<Rightarrow> 'r queue_event \<Rightarrow> 'r RequestQueueService" where
  "queue_step concurrent s (AddToQueue r) =
     (if stopped s then s\<lparr>queued := queued s @ [r]\<rparr>
      else outerNext concurrent r (s\<lparr>queued := queued s @ [r]\<rparr>))"
| "queue_step concurrent s (Completes r) =
     (if stopped s \<or> r \<notin> set (active s) then s
      else drain_buffer concurrent (buffer s) (s\<lparr>active := remove1 r (active s)\<rparr>))"
| "queue_step concurrent s (Errors r) =
     (if stopped s \<or> r \<notin> set (active s) then s
      else s\<lparr>active := [], buffer := [], stopped := True\<rparr>)"

definition run_queue :: "nat \<Rightarrow> 'r queue_event list \<Rightarrow> 'r RequestQueueService" where
  "run_queue concurrent events = foldl (queue_step concurrent) new_queue events"

text \<open>
  The invariant of the queue: the limit holds; while the subscription lives, the
  requests queued are the ones started followed by the ones held back, and none is
  held back while a place is free; once it has stopped, nothing is left waiting.
\<close>

definition queue_inv :: "nat \<Rightarrow> 'r RequestQueueService \<Rightarrow> bool" where
  "queue_inv n s =
     (length (active s) \<le> n
      \<and> (if stopped s then prefix (started s) (queued s) \<and> buffer s = []
         else queued s = started s @ buffer s \<and> (buffer s = [] \<or> length (active s) = n)))"

section \<open>AuthService and AuthInterceptor\<close>

text \<open>
  \<open>AuthService\<close>.  \<open>localStorage_tokens\<close> is the item \<open>tokens\<close> of
  \<open>localStorage\<close> (\<open>None\<close> when it is not there), \<open>refreshTokenSubject\<close> the
  current value of the \<open>BehaviorSubject\<close> (\<open>None\<close> for \<open>null\<close>).
  \<open>refresh_tap\<close> and \<open>refresh_catchError\<close> are the effects of the two callbacks
  that \<open>refreshToken\<close> attaches to the POST.

  Several callers may be waiting at once, so \<open>refreshToken\<close> is first embedded as
  a machine moved by events: \<open>Calls c\<close>, caller \<open>c\<close> calls \<open>refreshToken()\<close>
  and subscribes to what it returns; \<open>Replies c reply\<close>, the POST started for
  \<open>c\<close> ends with \<open>reply\<close>.  \<open>in_flight\<close> lists the callers whose POST has
  no reply yet, \<open>posted\<close> the refresh tokens POSTed, \<open>waiters\<close> the
  subscribers of \<open>refreshTokenSubject.pipe(filter(token => token !== null), take(1),
  switchMap(() => this.getStoredTokens()))\<close> that have received nothing yet, and
  \<open>delivered\<close> what each caller's observable has emitted or failed with, in
  order.  A \<open>BehaviorSubject\<close> hands its current value to a new subscriber at
  once, and every later value to the subscribers it has.
\<close>

record AuthTokens =
  accessToken :: string
  refreshToken :: string
  expiresIn :: int

record AuthService =
  localStorage_tokens :: "AuthTokens option"
  refreshTokenInProgress :: bool
  refreshTokenSubject :: "string option"

definition storeTokens :: "AuthTokens \<Rightarrow> AuthService \<Rightarrow> AuthService" where
  "storeTokens tokens a = a\<lparr>localStorage_tokens := Some tokens\<rparr>"

definition getStoredTokens :: "AuthService \<Rightarrow> HttpError + AuthTokens" where
  "getStoredTokens a =
     (case localStorage_tokens a of
        Some tokens \<Rightarrow> Inr tokens
      | None \<Rightarrow> Inl (Error ''No tokens found''))"

definition getStoredRefreshToken :: "AuthService \<Rightarrow> string option" where
  "getStoredRefreshToken a =
     (case localStorage_tokens a of
        Some tokens \<Rightarrow> Some (refreshToken tokens)
      | None \<Rightarrow> None)"

definition logout :: "AuthService \<Rightarrow> AuthService" where
  "logout a = a\<lparr>localStorage_tokens := None\<rparr>"

definition refresh_tap :: "AuthTokens \<Rightarrow> AuthService \<Rightarrow> AuthService" where
  "refresh_tap tokens a =
     (storeTokens tokens (a\<lparr>refreshTokenInProgress := False\<rparr>))
       \<lparr>refreshTokenSubject := Some (accessToken tokens)\<rparr>"

definition refresh_catchError :: "AuthService \<Rightarrow> AuthService" where
  "refresh_catchError a =
     logout (a\<lparr>refreshTokenInProgress := False, refreshTokenSubject := None\<rparr>)"

record 'c AuthRun =
  svc :: AuthService
  waiters :: "'c list"
  in_flight :: "'c list"
  posted :: "string option list"
  delivered :: "('c \<times> (HttpError + AuthTokens)) list"

datatype 'c auth_event = Calls 'c | Replies 'c "HttpError + AuthTokens"

definition new_AuthRun :: "AuthTokens option \<Rightarrow> 'c AuthRun" where
  "new_AuthRun stored =
     \<lparr>svc = \<lparr>localStorage_tokens = stored, refreshTokenInProgress = False, refreshTokenSubject = None\<rparr>,
      waiters = [], in_flight = [], posted = [], delivered = []\<rparr>"

definition refreshToken_call :: "'c \<Rightarrow> 'c AuthRun \<Rightarrow> 'c AuthRun" where
  "refreshToken_call c s =
     (if refreshTokenInProgress (svc s)
      then (case refreshTokenSubject (svc s) of
              None \<Rightarrow> s\<lparr>waiters := waiters s @ [c]\<rparr>
            | Some token \<Rightarrow> s\<lparr>delivered := delivered s @ [(c, getStoredTokens (svc s))]\<rparr>)
      else s\<lparr>svc := (svc s)\<lparr>refreshTokenInProgress := True\<rparr>,
             in_flight := in_flight s @ [c],
             posted := posted s @ [getStoredRefreshToken (svc s)]\<rparr>)"

definition refreshToken_reply :: "'c \<Rightarrow> (HttpError + AuthTokens) \<Rightarrow> 'c AuthRun \<Rightarrow> 'c AuthRun" where
  "refreshToken_reply c reply s =
     (if c \<notin> set (in_flight s) then s
      else (case reply of
              Inr tokens \<Rightarrow>
                s\<lparr>svc := refresh_tap tokens (svc s),
                  in_flight := remove1 c (in_flight s),
                  waiters := [],
                  delivered := delivered s
                    @ map (\<lambda>w. (w, getStoredTokens (refresh_tap tokens (svc s)))) (waiters s)
                    @ [(c, Inr tokens)]\<rparr>
            | Inl error \<Rightarrow>
                s\<lparr>svc := refresh_catchError (svc s),
                  in_flight := remove1 c (in_flight s),
                  delivered := delivered s @ [(c, Inl error)]\<rparr>))"

fun auth_step :: "'c AuthRun \<Rightarrow> 'c auth_event \<Rightarrow> 'c AuthRun" where
  "auth_step s (Calls c) = refreshToken_call c s"
| "auth_step s (Replies c reply) = refreshToken_reply c reply s"

definition run_auth :: "AuthTokens option \<Rightarrow> 'c auth_event list \<Rightarrow> 'c AuthRun" where
  "run_auth stored events = foldl auth_step (new_AuthRun stored) events"


text \<open>
  \<open>AuthInterceptor\<close>, for one request on its own: \<open>reply1\<close> is the answer to
  the request as first sent, \<open>refresh_reply\<close> the answer to the refresh POST if one
  is made, \<open>reply2\<close> the answer to the request as sent again.  \<open>sent\<close> logs the
  requests given to \<open>next.handle\<close>, \<open>refresh_posts\<close> the refresh tokens POSTed.
  An outcome \<open>None\<close> is an observable that stays silent: with a refresh marked in
  progress and a \<open>null\<close> subject, nothing in a run of one request will wake it.
  \<open>string_includes\<close> is \<open>String.prototype.includes\<close>; \<open>headers_set\<close> is
  \<open>HttpHeaders.set\<close> with names compared as written.
\<close>

fun string_includes :: "string \<Rightarrow> string \<Rightarrow> bool" where
  "string_includes [] searchString = (searchString = [])"
| "string_includes (c # cs) searchString = (prefix searchString (c # cs) \<or> string_includes cs searchString)"

fun headers_set :: "string \<Rightarrow> string \<Rightarrow> (string \<times> string) list \<Rightarrow> (string \<times> string) list" where
  "headers_set name v [] = [(name, v)]"
| "headers_set name v ((name', v') # hs) =
     (if name' = name then (name, v) # hs else (name', v') # headers_set name v hs)"

record World =
  auth :: AuthService
  sent :: "HttpRequest list"
  refresh_posts :: "string option list"

definition isAuthEndpoint :: "string \<Rightarrow> bool" where
  "isAuthEndpoint u = (string_includes u ''/auth/login'' \<or> string_includes u ''/auth/refresh'')"

definition with_bearer :: "HttpRequest \<Rightarrow> AuthTokens \<Rightarrow> HttpRequest" where
  "with_bearer req tokens =
     req\<lparr>headers := headers_set ''Authorization'' (''Bearer '' @ accessToken tokens) (headers req)\<rparr>"

definition addAuthHeader :: "HttpRequest \<Rightarrow> World \<Rightarrow> HttpError + HttpRequest" where
  "addAuthHeader req w =
     (case getStoredTokens (auth w) of
        Inl error \<Rightarrow> Inl error
      | Inr tokens \<Rightarrow> Inr (with_bearer req tokens))"

definition AuthService_refreshToken ::
  "(HttpError + AuthTokens) \<Rightarrow> World \<Rightarrow> (HttpError + AuthTokens) option \<times> World" where
  "AuthService_refreshToken refresh_reply w =
     (if refreshTokenInProgress (auth w)
      then (case refreshTokenSubject (auth w) of
              None \<Rightarrow> (None, w)
            | Some token \<Rightarrow> (Some (getStoredTokens (auth w)), w))
      else (let a = (auth w)\<lparr>refreshTokenInProgress := True\<rparr>;
                w' = w\<lparr>refresh_posts := refresh_posts w @ [getStoredRefreshToken a]\<rparr>
            in case refresh_reply of
                 Inr tokens \<Rightarrow> (Some (Inr tokens), w'\<lparr>auth := refresh_tap tokens a\<rparr>)
               | Inl error \<Rightarrow> (Some (Inl error), w'\<lparr>auth := refresh_catchError a\<rparr>)))"

definition handle401Error ::
  "HttpRequest \<Rightarrow> (HttpError + AuthTokens) \<Rightarrow> (HttpError + HttpResponse) \<Rightarrow> World
     \<Rightarrow> (HttpError + HttpResponse) option \<times> World" where
  "handle401Error req refresh_reply reply2 w =
     (case AuthService_refreshToken refresh_reply w of
        (None, w') \<Rightarrow> (None, w')
      | (Some (Inl error), w') \<Rightarrow> (Some (Inl error), w')
      | (Some (Inr tokens), w') \<Rightarrow>
          (Some reply2, w'\<lparr>sent := sent w' @ [with_bearer req tokens]\<rparr>))"

definition intercept_catchError ::
  "HttpRequest \<Rightarrow> (HttpError + AuthTokens) \<Rightarrow> (HttpError + HttpResponse) \<Rightarrow> HttpError \<Rightarrow> World
     \<Rightarrow> (HttpError + HttpResponse) option \<times> World" where
  "intercept_catchError req refresh_reply reply2 error w =
     (case error of
        HttpErrorResponse st retryAfter \<Rightarrow>
          if st = 401 then handle401Error req refresh_reply reply2 w
          else (Some (Inl error), w)
      | _ \<Rightarrow> (Some (Inl error), w))"

definition AuthInterceptor_intercept ::
  "HttpRequest \<Rightarrow> (HttpError + HttpResponse) \<Rightarrow> (HttpError + AuthTokens) \<Rightarrow> (HttpError + HttpResponse)
     \<Rightarrow> World \<Rightarrow> (HttpError + HttpResponse) option \<times> World" where
  "AuthInterceptor_intercept req reply1 refresh_reply reply2 w =
     (if isAuthEndpoint (url req) then (Some reply1, w\<lparr>sent := sent w @ [req]\<rparr>)
      else (case addAuthHeader req w of
              Inl error \<Rightarrow> intercept_catchError req refresh_reply reply2 error w
            | Inr authenticatedReq \<Rightarrow>
                (case reply1 of
                   Inr response \<Rightarrow> (Some (Inr response), w\<lparr>sent := sent w @ [authenticatedReq]\<rparr>)
                 | Inl error \<Rightarrow>
                     intercept_catchError req refresh_reply reply2 error
                       (w\<lparr>sent := sent w @ [authenticatedReq]\<rparr>))))"

text \<open>
  \<open>TokenRefreshService\<close>, the guide's wrapper for concurrent callers.  Its
  \<open>refreshSubject\<close> is a plain \<open>Subject\<close>: it hands a value to the observers it
  has, hands nothing to a new one, and once \<open>error\<close> was called it is closed: it
  drops every later value and answers each new subscriber with the error it keeps
  (\<open>refreshSubject_thrownError\<close>).  \<open>Subscribes c\<close>: caller \<open>c\<close> calls
  \<open>refreshToken()\<close> and subscribes to what it returns; \<open>InnerReplies reply\<close>:
  the observable of \<open>this.authService.refreshToken()\<close> ends with \<open>reply\<close>, some
  time after it was subscribed, and \<open>finalize\<close> clears the flag;
  \<open>Unsubscribes c\<close>: \<open>c\<close> leaves.  \<open>inner_calls\<close> counts the calls of
  \<open>authService.refreshToken()\<close>, \<open>received\<close> logs what the callers were handed.
\<close>

record 'c TokenRefreshService =
  refreshInProgress :: bool
  refreshSubject_observers :: "'c list"
  refreshSubject_thrownError :: "HttpError option"
  inner_calls :: nat
  received :: "('c \<times> (HttpError + AuthTokens)) list"

datatype 'c refresh_event =
    Subscribes 'c
  | Unsubscribes 'c
  | InnerReplies "HttpError + AuthTokens"

definition new_TokenRefreshService :: "'c TokenRefreshService" where
  "new_TokenRefreshService =
     \<lparr>refreshInProgress = False, refreshSubject_observers = [], refreshSubject_thrownError = None,
      inner_calls = 0, received = []\<rparr>"

definition refreshSubject_subscribe :: "'c \<Rightarrow> 'c TokenRefreshService \<Rightarrow> 'c TokenRefreshService" where
  "refreshSubject_subscribe c s =
     (case refreshSubject_thrownError s of
        Some error \<Rightarrow> s\<lparr>received := received s @ [(c, Inl error)]\<rparr>
      | None \<Rightarrow> s\<lparr>refreshSubject_observers := refreshSubject_observers s @ [c]\<rparr>)"

definition refreshSubject_next :: "AuthTokens \<Rightarrow> 'c TokenRefreshService \<Rightarrow> 'c TokenRefreshService" where
  "refreshSubject_next tokens s =
     (case refreshSubject_thrownError s of
        Some error \<Rightarrow> s
      | None \<Rightarrow> s\<lparr>received := received s @ map (\<lambda>c. (c, Inr tokens)) (refreshSubject_observers s)\<rparr>)"

definition refreshSubject_error :: "HttpError \<Rightarrow> 'c TokenRefreshService \<Rightarrow> 'c TokenRefreshService" where
  "refreshSubject_error error s =
     (case refreshSubject_thrownError s of
        Some previous \<Rightarrow> s
      | None \<Rightarrow> s\<lparr>received := received s @ map (\<lambda>c. (c, Inl error)) (refreshSubject_observers s),
                  refreshSubject_observers := [],
                  refreshSubject_thrownError := Some error\<rparr>)"

fun TokenRefreshService_step ::
  "'c TokenRefreshService \<Rightarrow> 'c refresh_event \<Rightarrow> 'c TokenRefreshService" where
  "TokenRefreshService_step s (Subscribes c) =
     refreshSubject_subscribe c
       (if \<not> refreshInProgress s
        then s\<lparr>refreshInProgress := True, inner_calls := Suc (inner_calls s)\<rparr>
        else s)"
| "TokenRefreshService_step s (Unsubscribes c) =
     s\<lparr>refreshSubject_observers := removeAll c (refreshSubject_observers s)\<rparr>"
| "TokenRefreshService_step s (InnerReplies reply) =
     (if \<not> refreshInProgress s then s
      else (case reply of
              Inr tokens \<Rightarrow> (refreshSubject_next tokens s)\<lparr>refreshInProgress := False\<rparr>
            | Inl error \<Rightarrow> (refreshSubject_error error s)\<lparr>refreshInProgress := False\<rparr>))"

definition run_TokenRefreshService :: "'c refresh_event list \<Rightarrow> 'c TokenRefreshService" where
  "run_TokenRefreshService events = foldl TokenRefreshService_step new_TokenRefreshService events"

text \<open>
  The invariant of \<open>refreshToken\<close>: at most one POST has no reply yet, and
  \<open>refreshTokenInProgress\<close> is set exactly while there is one.
\<close>

definition single_flight :: "'c AuthRun \<Rightarrow> bool" where
  "single_flight s =
     (length (in_flight s) \<le> 1 \<and> refreshTokenInProgress (svc s) = (in_flight s \<noteq> []))"

text \<open>Values for the concrete runs below.\<close>

abbreviation tokens0 :: AuthTokens where
  "tokens0 \<equiv> \<lparr>accessToken = ''a0'', refreshToken = ''r0'', expiresIn = 900\<rparr>"
abbreviation tokens1 :: AuthTokens where
  "tokens1 \<equiv> \<lparr>accessToken = ''a1'', refreshToken = ''r1'', expiresIn = 900\<rparr>"
abbreviation tokens2 :: AuthTokens where
  "tokens2 \<equiv> \<lparr>accessToken = ''a2'', refreshToken = ''r2'', expiresIn = 900\<rparr>"

abbreviation idle_world :: World where
  "idle_world \<equiv> \<lparr>auth = \<lparr>localStorage_tokens = Some tokens0, refreshTokenInProgress = False,
                              refreshTokenSubject = None\<rparr>,
                    sent = [], refresh_posts = []\<rparr>"
abbreviation login_request :: HttpRequest where
  "login_request \<equiv> \<lparr>req_method = ''POST'', url = ''/api/auth/login'', params = [], headers = []\<rparr>"

section \<open>Properties\<close>

lemma toString_digit: "0 \<le> i \<Longrightarrow> i < 10 \<Longrightarrow> toString i = [''0123456789'' ! nat i]"
  by (simp add: toString_def toString_nat.simps [of "nat i"])

subsection \<open>Query parameters\<close>

lemma params_getPostsWithParams:
  "params (getPostsWithParams userId start limit)
     = (case userId of None \<Rightarrow> [] | Some u \<Rightarrow> if u \<noteq> 0 then [(''userId'', toString u)] else [])
       @ (case start of None \<Rightarrow> [] | Some s \<Rightarrow> [(''_start'', toString s)])
       @ (case limit of None \<Rightarrow> [] | Some l \<Rightarrow> [(''_limit'', toString l)])"
  by (simp add: getPostsWithParams_def http_get_def split: option.splits)

lemma toString_zero: "toString 0 = ''0''"
  by (simp add: toString_digit)

text \<open>
  Claim C9.  With \<open>userId = 0\<close> no \<open>userId\<close> query parameter is appended (the
  truthiness guard drops the value 0): the request for user 0 is the very request
  issued without a user filter.  \<open>_start = 0\<close> is appended in every call, whatever
  the other two arguments are, and so is \<open>_limit = 0\<close>.  The last two conjuncts
  give the parameters and the request of every call.
\<close>

theorem getPostsWithParams_userId_zero:
  "getPostsWithParams (Some 0) start limit = getPostsWithParams None start limit
   \<and> ''userId'' \<notin> fst ` set (params (getPostsWithParams (Some 0) start limit))
   \<and> params (getPostsWithParams userId (Some 0) limit)
       = params (getPostsWithParams userId None None) @ (''_start'', ''0'')
           # params (getPostsWithParams None None limit)
   \<and> params (getPostsWithParams userId start (Some 0))
       = params (getPostsWithParams userId start None) @ [(''_limit'', ''0'')]
   \<and> params (getPostsWithParams (Some 0) (Some 0) (Some 0)) = [(''_start'', ''0''), (''_limit'', ''0'')]
   \<and> params (getPostsWithParams (Some 7) (Some 0) (Some 0))
       = [(''userId'', ''7''), (''_start'', ''0''), (''_limit'', ''0'')]
   \<and> params (getPostsWithParams userId start limit)
       = (case userId of None \<Rightarrow> [] | Some u \<Rightarrow> if u \<noteq> 0 then [(''userId'', toString u)] else [])
         @ (case start of None \<Rightarrow> [] | Some s \<Rightarrow> [(''_start'', toString s)])
         @ (case limit of None \<Rightarrow> [] | Some l \<Rightarrow> [(''_limit'', toString l)])
   \<and> getPostsWithParams userId start limit
       = http_get (apiUrl @ ''/posts'') (params (getPostsWithParams userId start limit))"
proof -
  have same: "getPostsWithParams (Some 0) start limit = getPostsWithParams None start limit"
    by (simp add: getPostsWithParams_def)
  have absent: "''userId'' \<notin> fst ` set (params (getPostsWithParams (Some 0) start limit))"
    by (cases start; cases limit) (simp_all add: params_getPostsWithParams)
  have start0: "params (getPostsWithParams userId (Some 0) limit)
       = params (getPostsWithParams userId None None) @ (''_start'', ''0'')
           # params (getPostsWithParams None None limit)"
    by (simp add: params_getPostsWithParams toString_zero)
  have limit0: "params (getPostsWithParams userId start (Some 0))
       = params (getPostsWithParams userId start None) @ [(''_limit'', ''0'')]"
    by (simp add: params_getPostsWithParams toString_zero)
  have zeros: "params (getPostsWithParams (Some 0) (Some 0) (Some 0))
      = [(''_start'', ''0''), (''_limit'', ''0'')]"
    by (simp add: params_getPostsWithParams toString_zero)
  have seven: "params (getPostsWithParams (Some 7) (Some 0) (Some 0))
      = [(''userId'', ''7''), (''_start'', ''0''), (''_limit'', ''0'')]"
    by (simp add: params_getPostsWithParams toString_digit)
  have request: "getPostsWithParams userId start limit
       = http_get (apiUrl @ ''/posts'') (params (getPostsWithParams userId start limit))"
    by (simp add: getPostsWithParams_def http_get_def Let_def)
  from same absent start0 limit0 zeros seven params_getPostsWithParams [of userId start limit] request
  show ?thesis
    by blast
qed

subsection \<open>Retrying\<close>

lemma retry_timeout_bounds: "1 \<le> snd (retry_timeout n outs) \<and> snd (retry_timeout n outs) \<le> Suc n"
  by (induction n outs rule: retry_timeout.induct) (auto split: prod.splits)

lemma retry_timeout_count_blind:
  "snd (retry_timeout n (map (map_option (map_sum f id)) outs)) = snd (retry_timeout n outs)"
  by (induction n outs rule: retry_timeout.induct) (auto split: prod.splits)

lemma getPostsWithRetry_snd: "snd (getPostsWithRetry outs) = snd (retry_timeout 3 outs)"
  by (simp add: getPostsWithRetry_def split: prod.splits sum.splits)

lemma retry_timeout_errors_then_response:
  "length es \<le> n \<Longrightarrow>
     retry_timeout n (map (\<lambda>e. Some (Inl e)) es @ Some (Inr v) # rest) = (Inr v, Suc (length es))"
proof (induction es arbitrary: n)
  case Nil
  show ?case by simp
next
  case (Cons e es)
  then obtain m where "n = Suc m" and "length es \<le> m"
    by (cases n) auto
  with Cons.IH [of m] show ?case
    by simp
qed

lemma retry_timeout_errors_then_silence:
  "length es \<le> n \<Longrightarrow>
     retry_timeout n (map (\<lambda>e. Some (Inl e)) es @ None # rest) = (Inl TimeoutError, Suc (length es))"
proof (induction es arbitrary: n)
  case Nil
  show ?case by simp
next
  case (Cons e es)
  then obtain m where "n = Suc m" and "length es \<le> m"
    by (cases n) auto
  with Cons.IH [of m] show ?case
    by simp
qed

lemma retry_timeout_errors_then_nothing:
  "length es \<le> n \<Longrightarrow>
     retry_timeout n (map (\<lambda>e. Some (Inl e)) es) = (Inl TimeoutError, Suc (length es))"
proof (induction es arbitrary: n)
  case Nil
  show ?case by simp
next
  case (Cons e es)
  then obtain m where "n = Suc m" and "length es \<le> m"
    by (cases n) auto
  with Cons.IH [of m] show ?case
    by simp
qed

lemma retry_timeout_errors_exhaust:
  "length es = n \<Longrightarrow>
     retry_timeout n (map (\<lambda>e. Some (Inl e)) es @ Some (Inl e') # rest) = (Inl e', Suc n)"
proof (induction es arbitrary: n)
  case Nil
  then show ?case by simp
next
  case (Cons e es)
  then obtain m where "n = Suc m" and "length es = m"
    by (cases n) auto
  with Cons.IH [of m] show ?case
    by simp
qed

text \<open>
  Claim C4, as amended.  \<open>getPostsWithRetry\<close> makes between one and four GET
  requests (the first attempt and up to three resubscriptions of \<open>retry(3)\<close>).
  Every error is retried, whatever its kind, while resubscriptions are left: after
  up to three errors a response is the outcome, and a wait that the 5000 ms timer
  ends (or for which no reply is left) ends the call with the fixed \<open>Error\<close>; so
  does a fourth error.  Every failure the caller sees is that fixed \<open>Error\<close>, and
  the number of requests does not depend on which errors were received (any
  relabelling \<open>f\<close> of the errors leaves it unchanged).
\<close>

theorem getPostsWithRetry_retries_every_error:
  "1 \<le> snd (getPostsWithRetry outcomes) \<and> snd (getPostsWithRetry outcomes) \<le> 4
   \<and> (length es \<le> 3 \<longrightarrow>
        getPostsWithRetry (map (\<lambda>e. Some (Inl e)) es @ Some (Inr (v :: 'a)) # rest)
          = (Inr v, Suc (length es)))
   \<and> (length es \<le> 3 \<longrightarrow>
        getPostsWithRetry (map (\<lambda>e. Some (Inl e)) es @ None # rest)
          = (Inl (Error ''Failed to fetch posts after 3 retries''), Suc (length es)))
   \<and> (length es \<le> 3 \<longrightarrow>
        getPostsWithRetry (map (\<lambda>e. Some (Inl e)) es)
          = (Inl (Error ''Failed to fetch posts after 3 retries'') :: HttpError + 'a, Suc (length es)))
   \<and> (length es = 3 \<longrightarrow>
        getPostsWithRetry (map (\<lambda>e. Some (Inl e)) es @ Some (Inl e4) # rest)
          = (Inl (Error ''Failed to fetch posts after 3 retries''), 4))
   \<and> getPostsWithRetry (Some (Inl e) # Some (Inr v) # rest) = (Inr v, 2)
   \<and> getPostsWithRetry (Some (Inl e1) # Some (Inl e2) # Some (Inl e3) # Some (Inl e4) # rest)
       = (Inl (Error ''Failed to fetch posts after 3 retries''), 4)
   \<and> (case fst (getPostsWithRetry outcomes) of
         Inl error \<Rightarrow> error = Error ''Failed to fetch posts after 3 retries''
       | Inr posts \<Rightarrow> True)
   \<and> snd (getPostsWithRetry (map (map_option (map_sum f id)) outcomes))
       = snd (getPostsWithRetry outcomes)"
proof -
  have "snd (retry_timeout 3 outcomes) \<le> Suc 3"
    using retry_timeout_bounds [of 3 outcomes] by blast
  then have bound: "snd (getPostsWithRetry outcomes) \<le> 4"
    by (simp add: getPostsWithRetry_snd)
  have least: "1 \<le> snd (getPostsWithRetry outcomes)"
    using retry_timeout_bounds [of 3 outcomes] by (simp add: getPostsWithRetry_snd)
  have response: "length es \<le> 3 \<longrightarrow>
        getPostsWithRetry (map (\<lambda>e. Some (Inl e)) es @ Some (Inr v) # rest) = (Inr v, Suc (length es))"
    by (simp add: getPostsWithRetry_def retry_timeout_errors_then_response)
  have silence: "length es \<le> 3 \<longrightarrow>
        getPostsWithRetry (map (\<lambda>e. Some (Inl e)) es @ None # rest)
          = (Inl (Error ''Failed to fetch posts after 3 retries''), Suc (length es))"
    by (simp add: getPostsWithRetry_def retry_timeout_errors_then_silence)
  have unanswered: "length es \<le> 3 \<longrightarrow>
        getPostsWithRetry (map (\<lambda>e. Some (Inl e)) es)
          = (Inl (Error ''Failed to fetch posts after 3 retries'') :: HttpError + 'a, Suc (length es))"
    by (simp add: getPostsWithRetry_def retry_timeout_errors_then_nothing)
  have exhaust: "length es = 3 \<longrightarrow>
        getPostsWithRetry (map (\<lambda>e. Some (Inl e)) es @ Some (Inl e4) # rest)
          = (Inl (Error ''Failed to fetch posts after 3 retries''), 4)"
    by (simp add: getPostsWithRetry_def retry_timeout_errors_exhaust)
  have once: "getPostsWithRetry (Some (Inl e) # Some (Inr v) # rest) = (Inr v, 2)"
    by (simp add: getPostsWithRetry_def numeral_3_eq_3)
  have four: "getPostsWithRetry (Some (Inl e1) # Some (Inl e2) # Some (Inl e3) # Some (Inl e4) # rest)
       = (Inl (Error ''Failed to fetch posts after 3 retries''), 4)"
    by (simp add: getPostsWithRetry_def numeral_3_eq_3)
  have fixed: "case fst (getPostsWithRetry outcomes) of
         Inl error \<Rightarrow> error = Error ''Failed to fetch posts after 3 retries''
       | Inr posts \<Rightarrow> True"
    by (simp add: getPostsWithRetry_def split: prod.splits sum.splits)
  have blind: "snd (getPostsWithRetry (map (map_option (map_sum f id)) outcomes))
       = snd (getPostsWithRetry outcomes)"
    by (simp add: getPostsWithRetry_snd retry_timeout_count_blind)
  from least bound response silence unanswered exhaust once four fixed blind show ?thesis
    by blast
qed

text \<open>
  Witness for C4 as amended: a 404 and a 500 followed by a response, by silence, by
  nothing; and a fourth error after a 404, a 500 and a 429.
\<close>

theorem getPostsWithRetry_retries_every_error_witness:
  "length [HttpErrorResponse 404 None, HttpErrorResponse 500 None] \<le> 3
   \<and> getPostsWithRetry [Some (Inl (HttpErrorResponse 404 None)), Some (Inl (HttpErrorResponse 500 None)),
        Some (Inr ''posts'')] = (Inr ''posts'', 3)
   \<and> getPostsWithRetry [Some (Inl (HttpErrorResponse 404 None)), Some (Inl (HttpErrorResponse 500 None)),
        None, Some (Inr ''posts'')]
       = (Inl (Error ''Failed to fetch posts after 3 retries''), 3)
   \<and> getPostsWithRetry [Some (Inl (HttpErrorResponse 404 None)), Some (Inl (HttpErrorResponse 500 None))]
       = (Inl (Error ''Failed to fetch posts after 3 retries'') :: HttpError + string, 3)
   \<and> length [HttpErrorResponse 404 None, HttpErrorResponse 500 None, HttpErrorResponse 429 (Some 2)] = 3
   \<and> getPostsWithRetry [Some (Inl (HttpErrorResponse 404 None)), Some (Inl (HttpErrorResponse 500 None)),
        Some (Inl (HttpErrorResponse 429 (Some 2))), Some (Inl (HttpErrorResponse 503 None)),
        Some (Inr ''posts'')]
       = (Inl (Error ''Failed to fetch posts after 3 retries''), 4)"
proof -
  let ?two = "[HttpErrorResponse 404 None, HttpErrorResponse 500 None]"
  let ?three = "[HttpErrorResponse 404 None, HttpErrorResponse 500 None, HttpErrorResponse 429 (Some 2)]"
  have two: "length ?two \<le> 3" and three: "length ?three = 3"
    by simp_all
  note a = getPostsWithRetry_retries_every_error
    [of "[]" ?two "''posts''" "[]" "HttpErrorResponse 503 None" "HttpErrorResponse 404 None"
        "HttpErrorResponse 404 None" "HttpErrorResponse 404 None" "HttpErrorResponse 404 None" id]
  note b = getPostsWithRetry_retries_every_error
    [of "[]" ?two "''posts''" "[Some (Inr ''posts'')]" "HttpErrorResponse 503 None" "HttpErrorResponse 404 None"
        "HttpErrorResponse 404 None" "HttpErrorResponse 404 None" "HttpErrorResponse 404 None" id]
  note c = getPostsWithRetry_retries_every_error
    [of "[]" ?three "''posts''" "[Some (Inr ''posts'')]" "HttpErrorResponse 503 None" "HttpErrorResponse 404 None"
        "HttpErrorResponse 404 None" "HttpErrorResponse 404 None" "HttpErrorResponse 404 None" id]
  from a two have 1: "getPostsWithRetry (map (\<lambda>e. Some (Inl e)) ?two @ Some (Inr ''posts'') # []) = (Inr ''posts'', Suc (length ?two))"
    by blast
  from b two have 2: "getPostsWithRetry (map (\<lambda>e. Some (Inl e)) ?two @ None # [Some (Inr ''posts'')])
      = (Inl (Error ''Failed to fetch posts after 3 retries''), Suc (length ?two))"
    by blast
  from a two have 3: "getPostsWithRetry (map (\<lambda>e. Some (Inl e)) ?two)
      = (Inl (Error ''Failed to fetch posts after 3 retries'') :: HttpError + string, Suc (length ?two))"
    by blast
  from c three have 4: "getPostsWithRetry (map (\<lambda>e. Some (Inl e)) ?three @ Some (Inl (HttpErrorResponse 503 None)) # [Some (Inr ''posts'')])
      = (Inl (Error ''Failed to fetch posts after 3 retries''), 4)"
    by blast
  from two three 1 2 3 4 show ?thesis
    by simp
qed

text \<open>
  Counterexample to claim C4 as stated: a 404 is retried (two requests, the second
  one answered), and three 500s followed by a response make four requests where
  \<open>retry(3)\<close> was configured.
\<close>

theorem getPostsWithRetry_404_counterexample:
  "getPostsWithRetry [Some (Inl (HttpErrorResponse 404 None)), Some (Inr ''posts'')] = (Inr ''posts'', 2)
   \<and> snd (getPostsWithRetry [Some (Inl (HttpErrorResponse 500 None)), Some (Inl (HttpErrorResponse 500 None)),
          Some (Inl (HttpErrorResponse 500 None)), Some (Inr ''posts'')]) = 4"
  by (simp add: getPostsWithRetry_def numeral_3_eq_3)

lemma retryWithBackoff_shape:
  "\<exists>n. snd (retryWithBackoff m b i outs) = map (\<lambda>k. (int k + 1) * b) [i ..< i + n]"
proof (induction m b i outs rule: retryWithBackoff.induct)
  case (3 maxRetries backoffMs index e rest)
  show ?case
  proof (cases "backoff_notifier maxRetries backoffMs e index")
    case (Throw e')
    then show ?thesis by (intro exI [of _ 0]) simp
  next
    case (Timer d)
    then have d: "d = (int index + 1) * backoffMs"
      by (auto simp: backoff_notifier_def Let_def split: if_splits)
    obtain r ds where rec: "retryWithBackoff maxRetries backoffMs (Suc index) rest = (r, ds)"
      by (cases "retryWithBackoff maxRetries backoffMs (Suc index) rest")
    from "3.IH" [OF Timer] rec obtain n
      where ih: "ds = map (\<lambda>k. (int k + 1) * backoffMs) [Suc index ..< Suc index + n]"
      by auto
    have "[index ..< index + Suc n] = index # [Suc index ..< Suc index + n]"
      by (simp add: upt_conv_Cons)
    with d ih have "d # ds = map (\<lambda>k. (int k + 1) * backoffMs) [index ..< index + Suc n]"
      by simp
    with Timer rec show ?thesis
      by (intro exI [of _ "Suc n"]) simp
  qed
qed (simp_all, (rule exI [of _ 0], simp)+)

lemma retryWithBackoff_delays:
  "snd (retryWithBackoff m b i outs)
     = map (\<lambda>k. (int k + 1) * b) [i ..< i + length (snd (retryWithBackoff m b i outs))]"
proof -
  obtain n where n: "snd (retryWithBackoff m b i outs) = map (\<lambda>k. (int k + 1) * b) [i ..< i + n]"
    using retryWithBackoff_shape by blast
  then have "length (snd (retryWithBackoff m b i outs)) = n"
    by simp
  with n show ?thesis
    by simp
qed

lemma retry_config_shape:
  "\<exists>n. k + n \<le> max k c \<and> snd (retry_config c (\<lambda>error retryCount. f retryCount) k outs) = map (\<lambda>j. f (Suc j)) [k ..< k + n]"
proof (induction c "\<lambda>(error::HttpError) retryCount::nat. (f retryCount :: int)" k outs rule: retry_config.induct)
  case (3 count soFar e rest)
  show ?case
  proof (cases "soFar < count")
    case True
    obtain r ds where rec: "retry_config count (\<lambda>error retryCount. f retryCount) (Suc soFar) rest = (r, ds)"
      by (cases "retry_config count (\<lambda>error retryCount. f retryCount) (Suc soFar) rest")
    from "3.hyps" [OF True] rec obtain n
      where le: "Suc soFar + n \<le> max (Suc soFar) count" and ih: "ds = map (\<lambda>j. f (Suc j)) [Suc soFar ..< Suc soFar + n]"
      by auto
    have "[soFar ..< soFar + Suc n] = soFar # [Suc soFar ..< Suc soFar + n]"
      by (simp add: upt_conv_Cons)
    with ih have "f (Suc soFar) # ds = map (\<lambda>j. f (Suc j)) [soFar ..< soFar + Suc n]"
      by simp
    moreover from le True have "soFar + Suc n \<le> max soFar count"
      by simp
    ultimately show ?thesis using True rec
      by (intro exI [of _ "Suc n"]) simp
  next
    case False
    then show ?thesis by (intro exI [of _ 0]) simp
  qed
qed (simp_all, (rule exI [of _ 0], simp)+)

lemma retryBatch_delays:
  "length (snd (retryBatch outs)) \<le> 3
   \<and> snd (retryBatch outs) = map (\<lambda>j. 2 ^ Suc j * 1000) [0 ..< length (snd (retryBatch outs))]"
proof -
  obtain n where le: "0 + n \<le> max 0 3"
    and n: "snd (retry_config 3 (\<lambda>error retryCount. 2 ^ retryCount * 1000) 0 outs)
             = map (\<lambda>j. 2 ^ Suc j * 1000) [0 ..< 0 + n]"
    using retry_config_shape [of 0 3 "\<lambda>retryCount. 2 ^ retryCount * 1000" outs] by blast
  then have "length (snd (retryBatch outs)) = n"
    by (simp add: retryBatch_def)
  with n le show ?thesis
    by (simp add: retryBatch_def)
qed

text \<open>
  Claim C5, as amended.  On a 429 \<open>handleBatchError\<close> waits exactly the
  \<open>Retry-After\<close> value (seconds, times 1000 ms; 0 without the header) before the
  next attempt; \<open>retryWithBackoff\<close> waits \<open>k * backoffMs\<close> before retry \<open>k\<close>
  (linear, no jitter, no cap); \<open>retryBatch\<close> waits \<open>2 ^ k * 1000\<close> ms before
  retry \<open>k\<close> (no jitter, no cap).
\<close>

theorem retry_delays_as_coded:
  "handleBatchError (HttpErrorResponse 429 (Some hint)) outcomes
       = (fst (retryBatch outcomes), hint * 1000 # snd (retryBatch outcomes))
   \<and> handleBatchError (HttpErrorResponse 429 None) outcomes
       = (fst (retryBatch outcomes), 0 # snd (retryBatch outcomes))
   \<and> snd (retryWithBackoff maxRetries backoffMs 0 outcomes)
       = map (\<lambda>k. (int k + 1) * backoffMs) [0 ..< length (snd (retryWithBackoff maxRetries backoffMs 0 outcomes))]
   \<and> snd (retryBatch outcomes) = map (\<lambda>j. 2 ^ Suc j * 1000) [0 ..< length (snd (retryBatch outcomes))]"
proof -
  have hint: "handleBatchError (HttpErrorResponse 429 (Some hint)) outcomes
       = (fst (retryBatch outcomes), hint * 1000 # snd (retryBatch outcomes))"
    by (simp add: handleBatchError_def split: prod.splits)
  have nohint: "handleBatchError (HttpErrorResponse 429 None) outcomes
       = (fst (retryBatch outcomes), 0 # snd (retryBatch outcomes))"
    by (simp add: handleBatchError_def split: prod.splits)
  from hint nohint retryWithBackoff_delays [of maxRetries backoffMs 0 outcomes] retryBatch_delays [of outcomes]
  show ?thesis
    by simp
qed

text \<open>
  Counterexample to claim C5 as stated: with base 1000 the third retry of
  \<open>retryWithBackoff\<close> waits 3000 ms, below \<open>base * 2 ^ (3 - 1)\<close>, the least
  value the formula with a jitter in \<open>[0, base)\<close> allows; and after a 429 with a
  \<open>Retry-After\<close> of 5 s it waits 1000 ms, not the 5000 ms of the hint.
\<close>

theorem retryWithBackoff_linear_counterexample:
  "snd (retryWithBackoff 3 1000 0
          [Inl (HttpErrorResponse 503 None), Inl (HttpErrorResponse 503 None),
           Inl (HttpErrorResponse 503 None), Inr ''data'']) = [1000, 2000, 3000]
   \<and> (3000 :: int) < 1000 * 2 ^ (3 - 1)
   \<and> snd (retryWithBackoff 3 1000 0 [Inl (HttpErrorResponse 429 (Some 5)), Inr ''data'']) = [1000]"
  by (simp add: backoff_notifier_def)

subsection \<open>Caching\<close>












text \<open>
  Claim C8, as amended.  A request whose method is not GET is handed to
  \<open>next.handle\<close> and nothing else happens: its outcome is the network's reply
  whatever the cache holds, and the cache is left as it was.  No entry is
  invalidated, so a GET of a URL cached before the write is still answered from
  the cache, with the entry stored before the write and without a request.
\<close>

theorem CacheInterceptor_write_keeps_entries:
  "(req_method w \<noteq> ''GET'' \<longrightarrow>
      CacheInterceptor_intercept w reply s = (reply, s\<lparr>handled := handled s @ [w]\<rparr>))
   \<and> (req_method w \<noteq> ''GET'' \<and> req_method r = ''GET'' \<and> response_cache s (url r) = Some old \<longrightarrow>
        CacheInterceptor_intercept r reply' (snd (CacheInterceptor_intercept w reply s))
          = (Inr old, snd (CacheInterceptor_intercept w reply s)))"
  by (simp add: CacheInterceptor_intercept_def next_handle_def)

text \<open>
  Witness for C8 as amended: a DELETE of \<open>/api/users/7\<close> followed by a GET of it.
\<close>

theorem CacheInterceptor_write_keeps_entries_witness:
  "req_method \<lparr>req_method = ''DELETE'', url = ''/api/users/7'', params = [], headers = []\<rparr> \<noteq> ''GET''
   \<and> fst (CacheInterceptor_intercept
          \<lparr>req_method = ''DELETE'', url = ''/api/users/7'', params = [], headers = []\<rparr>
          (Inr \<lparr>status = 204, body = []\<rparr>)
          \<lparr>response_cache = [''/api/users/7'' \<mapsto> \<lparr>status = 200, body = ''ann''\<rparr>], handled = []\<rparr>)
       = Inr \<lparr>status = 204, body = []\<rparr>
   \<and> fst (CacheInterceptor_intercept
          \<lparr>req_method = ''GET'', url = ''/api/users/7'', params = [], headers = []\<rparr>
          (Inl (HttpErrorResponse 404 None))
          (snd (CacheInterceptor_intercept
                  \<lparr>req_method = ''DELETE'', url = ''/api/users/7'', params = [], headers = []\<rparr>
                  (Inr \<lparr>status = 204, body = []\<rparr>)
                  \<lparr>response_cache = [''/api/users/7'' \<mapsto> \<lparr>status = 200, body = ''ann''\<rparr>],
                   handled = []\<rparr>)))
       = Inr \<lparr>status = 200, body = ''ann''\<rparr>"
proof -
  let ?w = "\<lparr>req_method = ''DELETE'', url = ''/api/users/7'', params = [], headers = []\<rparr>"
  let ?r = "\<lparr>req_method = ''GET'', url = ''/api/users/7'', params = [], headers = []\<rparr>"
  let ?old = "\<lparr>status = 200, body = ''ann''\<rparr>"
  let ?c = "\<lparr>response_cache = [''/api/users/7'' \<mapsto> ?old], handled = []\<rparr>"
  have pre: "req_method ?w \<noteq> ''GET'' \<and> req_method ?r = ''GET'' \<and> response_cache ?c (url ?r) = Some ?old"
    by simp
  note t = CacheInterceptor_write_keeps_entries
      [of ?w "Inr \<lparr>status = 204, body = []\<rparr>" ?c ?r ?old "Inl (HttpErrorResponse 404 None)"]
  from t pre have a: "CacheInterceptor_intercept ?w (Inr \<lparr>status = 204, body = []\<rparr>) ?c
      = (Inr \<lparr>status = 204, body = []\<rparr>, ?c\<lparr>handled := handled ?c @ [?w]\<rparr>)"
    by blast
  from t pre have b: "CacheInterceptor_intercept ?r (Inl (HttpErrorResponse 404 None))
         (snd (CacheInterceptor_intercept ?w (Inr \<lparr>status = 204, body = []\<rparr>) ?c))
      = (Inr ?old, snd (CacheInterceptor_intercept ?w (Inr \<lparr>status = 204, body = []\<rparr>) ?c))"
    by blast
  have 1: "req_method ?w \<noteq> ''GET''"
    by simp
  have 2: "fst (CacheInterceptor_intercept ?w (Inr \<lparr>status = 204, body = []\<rparr>) ?c)
      = Inr \<lparr>status = 204, body = []\<rparr>"
    by (simp only: a fst_conv)
  have 3: "fst (CacheInterceptor_intercept ?r (Inl (HttpErrorResponse 404 None))
         (snd (CacheInterceptor_intercept ?w (Inr \<lparr>status = 204, body = []\<rparr>) ?c))) = Inr ?old"
    by (simp only: b fst_conv)
  from 1 2 3 show ?thesis
    by blast
qed

text \<open>
  Counterexample to claim C8 as stated: after a successful PUT to
  \<open>/api/items/1\<close>, a GET of \<open>/api/items/1\<close> returns the response cached before
  the PUT, and the only request handed to \<open>next.handle\<close> is the PUT.
\<close>

theorem CacheInterceptor_stale_after_write_counterexample:
  "fst (CacheInterceptor_intercept
          \<lparr>req_method = ''GET'', url = ''/api/items/1'', params = [], headers = []\<rparr>
          (Inr \<lparr>status = 200, body = ''new''\<rparr>)
          (snd (CacheInterceptor_intercept
                  \<lparr>req_method = ''PUT'', url = ''/api/items/1'', params = [], headers = []\<rparr>
                  (Inr \<lparr>status = 200, body = ''new''\<rparr>)
                  \<lparr>response_cache = [''/api/items/1'' \<mapsto> \<lparr>status = 200, body = ''old''\<rparr>],
                   handled = []\<rparr>)))
     = Inr \<lparr>status = 200, body = ''old''\<rparr>
   \<and> handled (snd (CacheInterceptor_intercept
          \<lparr>req_method = ''GET'', url = ''/api/items/1'', params = [], headers = []\<rparr>
          (Inr \<lparr>status = 200, body = ''new''\<rparr>)
          (snd (CacheInterceptor_intercept
                  \<lparr>req_method = ''PUT'', url = ''/api/items/1'', params = [], headers = []\<rparr>
                  (Inr \<lparr>status = 200, body = ''new''\<rparr>)
                  \<lparr>response_cache = [''/api/items/1'' \<mapsto> \<lparr>status = 200, body = ''old''\<rparr>],
                   handled = []\<rparr>))))
     = [\<lparr>req_method = ''PUT'', url = ''/api/items/1'', params = [], headers = []\<rparr>]"
  by (simp add: CacheInterceptor_intercept_def next_handle_def)

subsection \<open>The request queue\<close>

lemma drain_buffer_fields:
  "stopped (drain_buffer n bs s) = stopped s \<and> queued (drain_buffer n bs s) = queued s"
  by (induction n bs s rule: drain_buffer.induct) (simp_all add: doInnerSub_def)

lemma drain_buffer_order:
  "started (drain_buffer n bs s) @ buffer (drain_buffer n bs s) = started s @ bs"
  by (induction n bs s rule: drain_buffer.induct) (simp_all add: doInnerSub_def)

lemma drain_buffer_bound:
  "length (active s) \<le> n \<Longrightarrow>
     length (active (drain_buffer n bs s)) \<le> n
     \<and> (buffer (drain_buffer n bs s) = [] \<or> length (active (drain_buffer n bs s)) = n)"
  by (induction n bs s rule: drain_buffer.induct) (auto simp: doInnerSub_def)

lemma queue_inv_step:
  assumes "queue_inv n s"
  shows "queue_inv n (queue_step n s ev)"
proof (cases ev)
  case (AddToQueue r)
  with assms show ?thesis
    by (auto simp: queue_inv_def outerNext_def doInnerSub_def)
next
  case (Completes r)
  show ?thesis
  proof (cases "stopped s \<or> r \<notin> set (active s)")
    case True
    with assms Completes show ?thesis by simp
  next
    case False
    let ?s = "s\<lparr>active := remove1 r (active s)\<rparr>"
    from assms have "length (active s) \<le> n"
      by (simp add: queue_inv_def)
    then have len: "length (active ?s) \<le> n"
      by (auto simp: length_remove1)
    from False assms have q: "queued s = started s @ buffer s"
      by (simp add: queue_inv_def)
    from drain_buffer_bound [OF len, of "buffer s"] drain_buffer_order [of n "buffer s" ?s]
      drain_buffer_fields [of n "buffer s" ?s] q False Completes
    show ?thesis
      by (simp add: queue_inv_def)
  qed
next
  case (Errors r)
  with assms show ?thesis
    by (auto simp: queue_inv_def)
qed

lemma queue_inv_run: "queue_inv n (run_queue n events)"
proof (induction events rule: rev_induct)
  case Nil
  show ?case by (simp add: run_queue_def new_queue_def queue_inv_def)
next
  case (snoc ev events)
  then show ?case
    by (simp add: run_queue_def queue_inv_step)
qed

text \<open>
  Claim C6.  After any sequence of events the number of started, unfinished
  requests is at most the limit \<open>n\<close> (at most 3 with the service's own
  \<open>concurrentRequests\<close>; with \<open>n = 1\<close>, at most one: the requests run one
  after the other); the requests started are, in order, an initial part of
  the requests queued, so none overtakes an earlier one; and while the subscription
  lives, the requests held back are exactly the rest of the queue, in arrival order.
\<close>

theorem queue_bound_and_fifo:
  "length (active (run_queue n events)) \<le> n
   \<and> length (active (run_queue concurrentRequests events)) \<le> 3
   \<and> length (active (run_queue 1 events)) \<le> 1
   \<and> prefix (started (run_queue n events)) (queued (run_queue n events))
   \<and> (\<not> stopped (run_queue n events) \<longrightarrow>
        queued (run_queue n events) = started (run_queue n events) @ buffer (run_queue n events))"
  using queue_inv_run [of n events] queue_inv_run [of 1 events] queue_inv_run [of 3 events]
  by (auto simp: queue_inv_def concurrentRequests_def split: if_splits)

text \<open>
  Witness for C6: five requests through a queue of limit 2; two completions admit
  the third and the fourth, the fifth is held back.
\<close>

theorem queue_bound_and_fifo_witness:
  "\<not> stopped (run_queue 2 [AddToQueue (1::nat), AddToQueue 2, AddToQueue 3, AddToQueue 4,
                             Completes 2, AddToQueue 5, Completes 1])
   \<and> active (run_queue 2 [AddToQueue (1::nat), AddToQueue 2, AddToQueue 3, AddToQueue 4,
                          Completes 2, AddToQueue 5, Completes 1]) = [3, 4]
   \<and> started (run_queue 2 [AddToQueue (1::nat), AddToQueue 2, AddToQueue 3, AddToQueue 4,
                           Completes 2, AddToQueue 5, Completes 1]) = [1, 2, 3, 4]
   \<and> queued (run_queue 2 [AddToQueue (1::nat), AddToQueue 2, AddToQueue 3, AddToQueue 4,
                          Completes 2, AddToQueue 5, Completes 1])
       = started (run_queue 2 [AddToQueue (1::nat), AddToQueue 2, AddToQueue 3, AddToQueue 4,
                               Completes 2, AddToQueue 5, Completes 1])
         @ buffer (run_queue 2 [AddToQueue (1::nat), AddToQueue 2, AddToQueue 3, AddToQueue 4,
                                Completes 2, AddToQueue 5, Completes 1])"
proof -
  let ?s = "run_queue 2 [AddToQueue (1::nat), AddToQueue 2, AddToQueue 3, AddToQueue 4,
                          Completes 2, AddToQueue 5, Completes 1]"
  have run: "?s = \<lparr>active = [3, 4], buffer = [5], stopped = False, started = [1, 2, 3, 4],
                    queued = [1, 2, 3, 4, 5]\<rparr>"
    by (simp add: run_queue_def new_queue_def outerNext_def doInnerSub_def)
  then have live: "\<not> stopped ?s"
    by simp
  from queue_bound_and_fifo [of 2 "[AddToQueue (1::nat), AddToQueue 2, AddToQueue 3, AddToQueue 4,
                          Completes 2, AddToQueue 5, Completes 1]"] live
  have "queued ?s = started ?s @ buffer ?s"
    by blast
  with run live show ?thesis
    by simp
qed

subsection \<open>Refreshing the token\<close>

text \<open>
  What does hold of \<open>refreshToken\<close>: never more than one POST in flight, a call
  made during one starts none, and the callers of a service's first refresh all
  receive the credential it returns.
\<close>

lemma single_flight_step:
  assumes "single_flight s"
  shows "single_flight (auth_step s ev)"
proof (cases ev)
  case (Calls c)
  with assms show ?thesis
    by (auto simp: single_flight_def refreshToken_call_def split: option.splits)
next
  case (Replies c reply)
  show ?thesis
  proof (cases "c \<in> set (in_flight s)")
    case False
    with assms Replies show ?thesis
      by (simp add: refreshToken_reply_def)
  next
    case True
    with assms have "in_flight s = [c]"
      by (cases "in_flight s") (auto simp: single_flight_def)
    with Replies show ?thesis
      by (cases reply)
        (simp_all add: single_flight_def refreshToken_reply_def refresh_tap_def
          refresh_catchError_def storeTokens_def logout_def)
  qed
qed

lemma single_flight_run: "single_flight (run_auth stored events)"
proof (induction events rule: rev_induct)
  case Nil
  show ?case
    by (simp add: run_auth_def new_AuthRun_def single_flight_def)
next
  case (snoc ev events)
  then show ?case
    by (simp add: run_auth_def single_flight_step)
qed

lemma join_posts_nothing:
  "refreshTokenInProgress (svc s) \<Longrightarrow>
     posted (refreshToken_call c s) = posted s \<and> in_flight (refreshToken_call c s) = in_flight s"
  by (simp add: refreshToken_call_def split: option.splits)

lemma first_cycle_same_credential:
  "run_auth stored (Calls c # map Calls cs @ [Replies c (Inr tokens)]) =
     \<lparr>svc = \<lparr>localStorage_tokens = Some tokens, refreshTokenInProgress = False,
              refreshTokenSubject = Some (accessToken tokens)\<rparr>,
      waiters = [], in_flight = [],
      posted = [case stored of None \<Rightarrow> None | Some t \<Rightarrow> Some (refreshToken t)],
      delivered = map (\<lambda>w. (w, Inr tokens)) cs @ [(c, Inr tokens)]\<rparr>"
proof -
  have joined: "foldl auth_step s (map Calls cs) = s\<lparr>waiters := waiters s @ cs\<rparr>"
    if "refreshTokenInProgress (svc s)" "refreshTokenSubject (svc s) = None" for s :: "'a AuthRun"
    using that by (induction cs arbitrary: s) (simp_all add: refreshToken_call_def)
  show ?thesis
    by (simp add: run_auth_def new_AuthRun_def refreshToken_call_def joined refreshToken_reply_def
        refresh_tap_def storeTokens_def getStoredTokens_def getStoredRefreshToken_def)
qed

lemma failure_reaches_only_the_caller:
  "c \<in> set (in_flight s) \<Longrightarrow>
     delivered (refreshToken_reply c (Inl error) s) = delivered s @ [(c, Inl error)]
     \<and> waiters (refreshToken_reply c (Inl error) s) = waiters s
     \<and> posted (refreshToken_reply c (Inl error) s) = posted s
     \<and> localStorage_tokens (svc (refreshToken_reply c (Inl error) s)) = None"
  by (simp add: refreshToken_reply_def refresh_catchError_def logout_def)

text \<open>
  The two embeddings of \<open>refreshToken\<close> agree: what the interceptor's run of one
  request does is what the machine does on a call answered before anyone else
  calls, and on a call made while a refresh is in progress.
\<close>

lemma AuthService_refreshToken_agrees:
  assumes "auth w = svc s" and "\<not> refreshTokenInProgress (svc s)" and "waiters s = []"
  shows "fst (AuthService_refreshToken reply w) = Some reply
     \<and> auth (snd (AuthService_refreshToken reply w))
         = svc (foldl auth_step s [Calls c, Replies c reply])
     \<and> delivered (foldl auth_step s [Calls c, Replies c reply]) = delivered s @ [(c, reply)]
     \<and> refresh_posts (snd (AuthService_refreshToken reply w))
         = refresh_posts w @ [getStoredRefreshToken (svc s)]
     \<and> posted (foldl auth_step s [Calls c, Replies c reply])
         = posted s @ [getStoredRefreshToken (svc s)]"
  using assms
  by (cases reply)
    (simp_all add: AuthService_refreshToken_def Let_def refreshToken_call_def refreshToken_reply_def
      getStoredRefreshToken_def)

lemma AuthService_refreshToken_joins:
  assumes "auth w = svc s" and "refreshTokenInProgress (svc s)"
  shows "snd (AuthService_refreshToken reply w) = w
     \<and> posted (refreshToken_call c s) = posted s
     \<and> (case fst (AuthService_refreshToken reply w) of
          None \<Rightarrow> waiters (refreshToken_call c s) = waiters s @ [c]
                   \<and> delivered (refreshToken_call c s) = delivered s
        | Some r \<Rightarrow> delivered (refreshToken_call c s) = delivered s @ [(c, r)])"
  using assms
  by (simp add: AuthService_refreshToken_def refreshToken_call_def split: option.splits)

text \<open>
  The wrapper \<open>TokenRefreshService\<close> hands the outcome of its first refresh,
  success or failure, to every caller that joined it, with one call of the
  underlying \<open>refreshToken\<close>.  After a failure its subject is closed for good:
  the callers of a later refresh are answered with the old error, and the new
  tokens reach nobody.
\<close>

lemma subscribes_fold:
  "refreshInProgress s \<Longrightarrow> refreshSubject_thrownError s = None \<Longrightarrow>
     foldl TokenRefreshService_step s (map Subscribes cs)
       = s\<lparr>refreshSubject_observers := refreshSubject_observers s @ cs\<rparr>"
  by (induction cs arbitrary: s) (simp_all add: refreshSubject_subscribe_def)

lemma TokenRefreshService_first_refresh:
  "run_TokenRefreshService (Subscribes c # map Subscribes cs @ [InnerReplies reply])
     = \<lparr>refreshInProgress = False,
        refreshSubject_observers = (case reply of Inl error \<Rightarrow> [] | Inr tokens \<Rightarrow> c # cs),
        refreshSubject_thrownError = (case reply of Inl error \<Rightarrow> Some error | Inr tokens \<Rightarrow> None),
        inner_calls = 1,
        received = map (\<lambda>c. (c, reply)) (c # cs)\<rparr>"
  by (cases reply)
    (simp_all add: run_TokenRefreshService_def new_TokenRefreshService_def subscribes_fold
      refreshSubject_subscribe_def refreshSubject_next_def refreshSubject_error_def)

lemma TokenRefreshService_closed_after_failure:
  "run_TokenRefreshService
       [Subscribes (1::nat), Subscribes 2, InnerReplies (Inl (HttpErrorResponse 401 None)),
        Subscribes 3, Subscribes 4, InnerReplies (Inr tokens1)]
     = \<lparr>refreshInProgress = False, refreshSubject_observers = [],
        refreshSubject_thrownError = Some (HttpErrorResponse 401 None), inner_calls = 2,
        received = [(1, Inl (HttpErrorResponse 401 None)), (2, Inl (HttpErrorResponse 401 None)),
                    (3, Inl (HttpErrorResponse 401 None)), (4, Inl (HttpErrorResponse 401 None))]\<rparr>"
  by (simp add: run_TokenRefreshService_def new_TokenRefreshService_def
      refreshSubject_subscribe_def refreshSubject_next_def refreshSubject_error_def)


text \<open>
  Claim C1, at an input where the code departs from it.  A first refresh has
  succeeded with \<open>tokens1\<close>; in the next one, started by caller 2, caller 3 joins
  while the POST is in flight.  No second POST is made, but caller 3 is answered
  at once with \<open>tokens1\<close>, the credential being replaced, and caller 2 receives
  \<open>tokens2\<close>.
\<close>

theorem stale_credential_for_late_joiner:
  "delivered (run_auth (Some tokens0)
       [Calls (1::nat), Replies 1 (Inr tokens1), Calls 2, Calls 3, Replies 2 (Inr tokens2)])
     = [(1, Inr tokens1), (3, Inr tokens1), (2, Inr tokens2)]
   \<and> posted (run_auth (Some tokens0)
       [Calls (1::nat), Replies 1 (Inr tokens1), Calls 2, Calls 3, Replies 2 (Inr tokens2)])
     = [Some ''r0'', Some ''r1'']"
  by (simp add: run_auth_def new_AuthRun_def refreshToken_call_def refreshToken_reply_def
      refresh_tap_def storeTokens_def getStoredTokens_def getStoredRefreshToken_def)

text \<open>
  Claim C2, at an input where the code departs from it.  Caller 2 joins the refresh
  started by caller 1, which fails.  Caller 1 receives the error, the tokens are
  removed and no second POST is made; caller 2 receives nothing and is still
  waiting.
\<close>

theorem waiter_left_pending_on_failure:
  "delivered (run_auth (Some tokens0)
       [Calls (1::nat), Calls 2, Replies 1 (Inl (HttpErrorResponse 401 None))])
     = [(1, Inl (HttpErrorResponse 401 None))]
   \<and> waiters (run_auth (Some tokens0)
       [Calls (1::nat), Calls 2, Replies 1 (Inl (HttpErrorResponse 401 None))]) = [2]
   \<and> localStorage_tokens (svc (run_auth (Some tokens0)
       [Calls (1::nat), Calls 2, Replies 1 (Inl (HttpErrorResponse 401 None))])) = None
   \<and> posted (run_auth (Some tokens0)
       [Calls (1::nat), Calls 2, Replies 1 (Inl (HttpErrorResponse 401 None))]) = [Some ''r0'']"
  by (simp add: run_auth_def new_AuthRun_def refreshToken_call_def refreshToken_reply_def
      refresh_catchError_def logout_def getStoredTokens_def getStoredRefreshToken_def)

subsection \<open>The authentication interceptor\<close>

lemma includes_sublist: "string_includes s t = sublist t s"
proof (induction s)
  case Nil
  show ?case by auto
next
  case (Cons c cs)
  then show ?case
    by (simp add: sublist_Cons_right)
qed

lemma includes_append: "string_includes (base @ t) t"
  by (simp add: includes_sublist)


lemma login_is_auth_endpoint: "isAuthEndpoint ''/api/auth/login''"
  by (simp add: isAuthEndpoint_def)

lemma profile_is_no_auth_endpoint: "\<not> isAuthEndpoint ''/api/users/profile''"
  by (simp add: isAuthEndpoint_def)

text \<open>
  Claim C10.  A request whose URL contains \<open>/auth/login\<close> or \<open>/auth/refresh\<close>
  is given to \<open>next.handle\<close> as it is, and its outcome is the reply whatever that
  is, a 401 included: nothing but the log of requests changes, so no header is set
  and no refresh is started.  The URL that \<open>refreshToken\<close> posts to, and the one
  \<open>login\<close> posts to, are such URLs for every base URL.
\<close>

theorem auth_endpoint_forwarded_unchanged:
  "(string_includes (url req) ''/auth/login'' \<or> string_includes (url req) ''/auth/refresh'' \<longrightarrow>
      AuthInterceptor_intercept req reply1 refresh_reply reply2 w
        = (Some reply1, w\<lparr>sent := sent w @ [req]\<rparr>))
   \<and> isAuthEndpoint (base @ ''/auth/refresh'')
   \<and> isAuthEndpoint (base @ ''/auth/login'')"
  by (simp add: AuthInterceptor_intercept_def isAuthEndpoint_def includes_append)

text \<open>Witness for C10: a login answered with 401.\<close>

theorem auth_endpoint_forwarded_unchanged_witness:
  "string_includes (url login_request) ''/auth/login''
   \<and> AuthInterceptor_intercept login_request (Inl (HttpErrorResponse 401 None)) (Inr tokens1)
        (Inr \<lparr>status = 200, body = ''ok''\<rparr>) idle_world
       = (Some (Inl (HttpErrorResponse 401 None)), idle_world\<lparr>sent := [login_request]\<rparr>)"
proof -
  have pre: "string_includes (url login_request) ''/auth/login''"
    by simp
  with auth_endpoint_forwarded_unchanged
    [of login_request "Inl (HttpErrorResponse 401 None)" "Inr tokens1"
        "Inr \<lparr>status = 200, body = ''ok''\<rparr>" idle_world "[]"]
  show ?thesis
    by simp
qed




end
